theory Spec2Isabelle
  imports Complex_Main
begin

section \<open>The prior box layer of paddle/gserver/layers/PriorBox.cpp\<close>

text \<open>
  The layer keeps the sizes as \<^verbatim>\<open>std::vector<int>\<close> and the ratios and variances as
  \<^verbatim>\<open>std::vector<float>\<close>. Integers are modelled by \<^typ>\<open>int\<close> (signed overflow is
  undefined in C++ and is not modelled), \<^verbatim>\<open>float\<close> and \<^verbatim>\<open>double\<close> values by
  \<^typ>\<open>real\<close>: arithmetic is exact, rounding, infinities and NaN are not modelled. The two
  places where the source converts a floating point value to \<^verbatim>\<open>int\<close> or compares
  against a constant are written out (\<open>truncSqrt\<close>, \<open>nearOne\<close>).
\<close>

subsection \<open>Data\<close>

text \<open>The parsed \<^verbatim>\<open>priorbox_conf\<close> message read by \<^verbatim>\<open>init\<close>.\<close>

record PriorBoxConfig =
  min_size :: "int list"
  max_size :: "int list"
  aspect_ratio :: "real list"
  conf_variance :: "real list"

text \<open>The members of \<^verbatim>\<open>class PriorBoxLayer\<close> (the trailing underscores dropped).
  The member \<^verbatim>\<open>buffer_\<close> is the scratch memory handed to \<open>forward\<close> below.\<close>

record PriorBoxLayer =
  numPriors :: int
  minSize :: "int list"
  maxSize :: "int list"
  aspectRatio :: "real list"
  variance :: "real list"

text \<open>Ways in which a run stops without a result: the failed \<^verbatim>\<open>CHECK_EQ\<close> (a fatal
  log message that aborts), and an access outside an array, which C++ leaves undefined.\<close>

datatype error = CheckEqFailed | OutOfBounds

subsection \<open>init\<close>

text \<open>
  \<^verbatim>\<open>for (int index = 0; index < inputRatioLength; index++)
    aspectRatio_.push_back(1 / aspectRatio_[index]);\<close>
  (The ratios of a configuration are positive. For the ratio 0 the source gets an
  infinity, which the reals do not have.)
\<close>

function flip :: "nat \<Rightarrow> nat \<Rightarrow> real list \<Rightarrow> real list" where
  "flip index inputRatioLength ar =
     (if index < inputRatioLength
      then flip (Suc index) inputRatioLength (ar @ [1 / (ar ! index)])
      else ar)"
  by pat_completeness auto
termination
  by (relation "measure (\<lambda>(index, inputRatioLength, ar). inputRatioLength - index)") auto

declare flip.simps [simp del]

definition init :: "PriorBoxConfig \<Rightarrow> bool \<times> PriorBoxLayer" where
  "init pbConf =
     (let inputRatioLength = length (aspect_ratio pbConf);
          flipped = flip 0 inputRatioLength (aspect_ratio pbConf);
          ratios = flipped @ [1];
          n = int (length ratios);
          n' = (if length (max_size pbConf) > 0 then n + 1 else n)
      in (True, \<lparr> numPriors = n',
                  minSize = min_size pbConf,
                  maxSize = max_size pbConf,
                  aspectRatio = ratios,
                  variance = conf_variance pbConf \<rparr>))"

subsection \<open>forward: writing through \<^verbatim>\<open>tmpPtr[idx++]\<close>\<close>

text \<open>The write position \<^verbatim>\<open>idx\<close> together with the contents of the buffer behind
  \<^verbatim>\<open>tmpPtr\<close>. A store outside the buffer is the error \<open>OutOfBounds\<close>.\<close>

type_synonym cursor = "nat \<times> real list"

definition put :: "real \<Rightarrow> cursor \<Rightarrow> error + cursor" where
  "put v c =
     (case c of (idx, tmpPtr) \<Rightarrow>
        if idx < length tmpPtr then Inr (Suc idx, tmpPtr[idx := v]) else Inl OutOfBounds)"

definition andThen :: "('s \<Rightarrow> error + 's) \<Rightarrow> ('s \<Rightarrow> error + 's) \<Rightarrow> 's \<Rightarrow> error + 's" where
  "andThen f g s = (case f s of Inl e \<Rightarrow> Inl e | Inr s' \<Rightarrow> g s')"

text \<open>A \<^verbatim>\<open>for\<close> loop over the elements of a list; the first error ends it.\<close>

fun forEach :: "'a list \<Rightarrow> ('a \<Rightarrow> 's \<Rightarrow> error + 's) \<Rightarrow> 's \<Rightarrow> error + 's" where
  "forEach [] body s = Inr s"
| "forEach (x # xs) body s =
     (case body x s of Inl e \<Rightarrow> Inl e | Inr s' \<Rightarrow> forEach xs body s')"

text \<open>The four stores \<^verbatim>\<open>xmin, ymin, xmax, ymax\<close> that follow every choice of a box.\<close>

definition storeBox :: "real \<Rightarrow> real \<Rightarrow> real \<Rightarrow> real \<Rightarrow> int \<Rightarrow> int \<Rightarrow> cursor \<Rightarrow> error + cursor" where
  "storeBox centerX centerY boxWidth boxHeight imageWidth imageHeight =
     andThen (put ((centerX - boxWidth / 2) / real_of_int imageWidth))
    (andThen (put ((centerY - boxHeight / 2) / real_of_int imageHeight))
    (andThen (put ((centerX + boxWidth / 2) / real_of_int imageWidth))
             (put ((centerY + boxHeight / 2) / real_of_int imageHeight))))"

text \<open>\<^verbatim>\<open>boxWidth = boxHeight = sqrt(minSize * maxSize)\<close> with \<^verbatim>\<open>int boxWidth\<close>: the
  square root is converted to \<^verbatim>\<open>int\<close>, which drops the fraction. (A negative product
  has no square root; the sizes of a configuration are positive.)\<close>

definition truncSqrt :: "int \<Rightarrow> int" where
  "truncSqrt n = \<lfloor>sqrt (real_of_int n)\<rfloor>"

text \<open>\<^verbatim>\<open>fabs(ar - 1.) < 1e-6\<close>\<close>

definition nearOne :: "real \<Rightarrow> bool" where
  "nearOne ar \<longleftrightarrow> \<bar>ar - 1\<bar> < 1 / 1000000"

text \<open>The body of the loop over \<^verbatim>\<open>minSize_\<close>. Its state is the local variable
  \<^verbatim>\<open>minSize\<close>, which outlives the loop, and the cursor.\<close>

definition sizeBody ::
  "PriorBoxLayer \<Rightarrow> real \<Rightarrow> real \<Rightarrow> int \<Rightarrow> int \<Rightarrow> int \<Rightarrow> int \<times> cursor \<Rightarrow> error + int \<times> cursor" where
  "sizeBody L centerX centerY imageWidth imageHeight m st =
     (case storeBox centerX centerY (real_of_int m) (real_of_int m) imageWidth imageHeight (snd st) of
        Inl e \<Rightarrow> Inl e
      | Inr c1 \<Rightarrow>
          if length (maxSize L) > 0 then
            if length (minSize L) \<noteq> length (maxSize L) then Inl CheckEqFailed
            else
              (case forEach (maxSize L)
                      (\<lambda>maxS. storeBox centerX centerY
                                 (real_of_int (truncSqrt (m * maxS)))
                                 (real_of_int (truncSqrt (m * maxS)))
                                 imageWidth imageHeight) c1 of
                 Inl e \<Rightarrow> Inl e
               | Inr c2 \<Rightarrow> Inr (m, c2))
          else Inr (m, c1))"

text \<open>The body of the loop over \<^verbatim>\<open>aspectRatio_\<close> (\<^verbatim>\<open>continue\<close> when the ratio is 1).\<close>

definition ratioBody :: "real \<Rightarrow> real \<Rightarrow> int \<Rightarrow> int \<Rightarrow> int \<Rightarrow> real \<Rightarrow> cursor \<Rightarrow> error + cursor" where
  "ratioBody centerX centerY imageWidth imageHeight m ar c =
     (if nearOne ar then Inr c
      else storeBox centerX centerY
             (real_of_int m * sqrt ar) (real_of_int m / sqrt ar) imageWidth imageHeight c)"

text \<open>One grid cell: \<^verbatim>\<open>int minSize = 0\<close>, the loop over the sizes, the loop over the
  ratios.\<close>

definition cellPriors ::
  "PriorBoxLayer \<Rightarrow> int \<Rightarrow> int \<Rightarrow> real \<Rightarrow> real \<Rightarrow> nat \<Rightarrow> nat \<Rightarrow> cursor \<Rightarrow> error + cursor" where
  "cellPriors L imageWidth imageHeight stepW stepH h w c =
     (let centerX = (real w + 1 / 2) * stepW;
          centerY = (real h + 1 / 2) * stepH
      in case forEach (minSize L) (sizeBody L centerX centerY imageWidth imageHeight) (0, c) of
           Inl e \<Rightarrow> Inl e
         | Inr (m, c1) \<Rightarrow>
             forEach (aspectRatio L) (ratioBody centerX centerY imageWidth imageHeight m) c1)"

text \<open>The loops over \<^verbatim>\<open>h\<close> and \<^verbatim>\<open>w\<close>.\<close>

definition priorLoops :: "PriorBoxLayer \<Rightarrow> int \<Rightarrow> int \<Rightarrow> int \<Rightarrow> int \<Rightarrow> cursor \<Rightarrow> error + cursor" where
  "priorLoops L layerWidth layerHeight imageWidth imageHeight =
     (let stepW = real_of_int imageWidth / real_of_int layerWidth;
          stepH = real_of_int imageHeight / real_of_int layerHeight
      in forEach [0..<nat layerHeight] (\<lambda>h.
           forEach [0..<nat layerWidth] (\<lambda>w.
             cellPriors L imageWidth imageHeight stepW stepH h w)))"

text \<open>\<^verbatim>\<open>for (int d = 0; d < dim; ++d)
    tmpPtr[d] = std::min(std::max(tmpPtr[d], (float)0.), (float)1.);\<close>\<close>

definition clip :: "nat \<Rightarrow> real list \<Rightarrow> real list" where
  "clip dimn tmpPtr = fold (\<lambda>d buf. buf[d := min (max (buf ! d) 0) 1]) [0..<dimn] tmpPtr"

text \<open>\<^verbatim>\<open>tmpPtr[idx++] = variance_[j]\<close>, inside the loops over \<^verbatim>\<open>h\<close>, \<^verbatim>\<open>w\<close>,
  \<^verbatim>\<open>i < numPriors_\<close> and \<^verbatim>\<open>j < 4\<close>. Reading \<^verbatim>\<open>variance_[j]\<close> in a vector of fewer
  than \<open>j + 1\<close> elements is an access outside an array as well.\<close>

definition varianceBody :: "PriorBoxLayer \<Rightarrow> nat \<Rightarrow> cursor \<Rightarrow> error + cursor" where
  "varianceBody L j c =
     (if j < length (variance L) then put (variance L ! j) c else Inl OutOfBounds)"

definition varianceLoops :: "PriorBoxLayer \<Rightarrow> int \<Rightarrow> int \<Rightarrow> cursor \<Rightarrow> error + cursor" where
  "varianceLoops L layerWidth layerHeight =
     forEach [0..<nat layerHeight] (\<lambda>h.
       forEach [0..<nat layerWidth] (\<lambda>w.
         forEach [0..<nat (numPriors L)] (\<lambda>i.
           forEach [0..<4] (\<lambda>j. varianceBody L j))))"

text \<open>
  \<^verbatim>\<open>Matrix::resizeOrCreate(buffer_, 1, dim * 2, false, false)\<close> gives a buffer of
  \<^verbatim>\<open>dim * 2\<close> entries without initialising them: they hold whatever the memory held
  before, \<open>mem\<close>. (The matrix classes are not part of the sources at hand; a negative
  size is taken as the empty buffer.)
\<close>

definition resizeOrCreate :: "(nat \<Rightarrow> real) \<Rightarrow> nat \<Rightarrow> real list" where
  "resizeOrCreate mem n = map mem [0..<n]"

text \<open>
  \<^verbatim>\<open>forward\<close>; \<open>dimn\<close> is the source's \<^verbatim>\<open>dim\<close>. The write position is not reset
  between the loops over the boxes and the loops over the variances. The result is the
  buffer copied to the output (\<^verbatim>\<open>outV->copyFrom(buffer_->data_, dim * 2)\<close>).
\<close>

definition forward ::
  "PriorBoxLayer \<Rightarrow> int \<Rightarrow> int \<Rightarrow> int \<Rightarrow> int \<Rightarrow> (nat \<Rightarrow> real) \<Rightarrow> error + real list" where
  "forward L layerWidth layerHeight imageWidth imageHeight mem =
     (let dimn = layerHeight * layerWidth * numPriors L * 4;
          tmpPtr = resizeOrCreate mem (nat (dimn * 2))
      in case priorLoops L layerWidth layerHeight imageWidth imageHeight (0, tmpPtr) of
           Inl e \<Rightarrow> Inl e
         | Inr (idx, buf1) \<Rightarrow>
             (case varianceLoops L layerWidth layerHeight (idx, clip (nat dimn) buf1) of
                Inl e \<Rightarrow> Inl e
              | Inr (idx', buf2) \<Rightarrow> Inr buf2))"

text \<open>Two memories to start from.\<close>

definition zeroMem :: "nat \<Rightarrow> real" where
  "zeroMem i = 0"

definition oneMem :: "nat \<Rightarrow> real" where
  "oneMem i = 1"

subsection \<open>The quantities of the specification\<close>

text \<open>The number of derived ratios within \<open>1e-6\<close> of 1, and the number of boxes the
  specification counts for one cell:
  \<open>len(minSizes) * (1 + len(maxSizes)) + (len(DerivedAspectRatios) - countOfUnityRatios)\<close>.\<close>

definition countOfUnityRatios :: "real list \<Rightarrow> nat" where
  "countOfUnityRatios ars = length (filter nearOne ars)"

definition actualPriorsPerCell :: "PriorBoxLayer \<Rightarrow> nat" where
  "actualPriorsPerCell L =
     length (minSize L) * (1 + length (maxSize L))
       + (length (aspectRatio L) - countOfUnityRatios (aspectRatio L))"

text \<open>The configurations that pass \<^verbatim>\<open>CHECK_EQ(minSize_.size(), maxSize_.size())\<close>
  wherever it is reached.\<close>

definition checkOk :: "PriorBoxLayer \<Rightarrow> bool" where
  "checkOk L \<longleftrightarrow> maxSize L = [] \<or> length (minSize L) = length (maxSize L)"

text \<open>The configurations of the specification's data model: positive sizes and ratios,
  \<open>maxSizes\<close> empty or as long as \<open>minSizes\<close>, four variances.\<close>

definition validConfig :: "PriorBoxConfig \<Rightarrow> bool" where
  "validConfig c \<longleftrightarrow>
     list_all (\<lambda>m. 0 < m) (min_size c) \<and> list_all (\<lambda>m. 0 < m) (max_size c)
     \<and> list_all (\<lambda>r. 0 < r) (aspect_ratio c)
     \<and> (max_size c = [] \<or> length (max_size c) = length (min_size c))
     \<and> length (conf_variance c) = 4"

subsection \<open>Configurations to run\<close>

text \<open>One minimum size and the raw ratio 4 (the derived ratios are 4, 1/4 and 1).\<close>

definition ratioConf :: PriorBoxConfig where
  "ratioConf = \<lparr> min_size = [30], max_size = [], aspect_ratio = [4],
                 conf_variance = [1 / 10, 1 / 10, 2 / 10, 2 / 10] \<rparr>"

text \<open>Scenario B of the specification: one minimum and one maximum size, no raw ratio.\<close>

definition scenarioB :: PriorBoxConfig where
  "scenarioB = \<lparr> min_size = [30], max_size = [60], aspect_ratio = [],
                 conf_variance = [1 / 10, 1 / 10, 2 / 10, 2 / 10] \<rparr>"

text \<open>A raw ratio that is 1 itself.\<close>

definition unityConf :: PriorBoxConfig where
  "unityConf = \<lparr> min_size = [30], max_size = [], aspect_ratio = [1],
                 conf_variance = [1 / 10, 1 / 10, 2 / 10, 2 / 10] \<rparr>"

text \<open>No minimum size, one maximum size.\<close>

definition noMinConf :: PriorBoxConfig where
  "noMinConf = \<lparr> min_size = [], max_size = [60], aspect_ratio = [4],
                 conf_variance = [1 / 10, 1 / 10, 2 / 10, 2 / 10] \<rparr>"

text \<open>Two minimum sizes and a single maximum size.\<close>

definition mismatchConf :: PriorBoxConfig where
  "mismatchConf = \<lparr> min_size = [30, 60], max_size = [90], aspect_ratio = [],
                    conf_variance = [1 / 10, 1 / 10, 2 / 10, 2 / 10] \<rparr>"

text \<open>Two minimum sizes and the raw ratios 1 and 4: four boxes for a cell, five counted
  by \<^verbatim>\<open>init\<close>.\<close>

definition lastConf :: PriorBoxConfig where
  "lastConf = \<lparr> min_size = [30, 60], max_size = [], aspect_ratio = [1, 4],
                conf_variance = [1 / 10, 1 / 10, 2 / 10, 2 / 10] \<rparr>"

text \<open>Two minimum sizes, nothing else: two boxes for a cell, one counted by \<^verbatim>\<open>init\<close>.\<close>

definition twoMinConf :: PriorBoxConfig where
  "twoMinConf = \<lparr> min_size = [30, 60], max_size = [], aspect_ratio = [],
                  conf_variance = [1 / 10, 1 / 10, 2 / 10, 2 / 10] \<rparr>"

text \<open>A raw ratio that is 1 itself, and variances of 5.\<close>

definition fiveConf :: PriorBoxConfig where
  "fiveConf = \<lparr> min_size = [30], max_size = [], aspect_ratio = [1],
                conf_variance = [5, 5, 5, 5] \<rparr>"

subsection \<open>Stores in blocks\<close>

text \<open>The effect of a run of stores \<^verbatim>\<open>tmpPtr[idx++] = v\<close>, one for each element of
  \<open>vals\<close>: used to describe what the loops write.\<close>

definition writes :: "real list \<Rightarrow> cursor \<Rightarrow> error + cursor" where
  "writes vals c =
     (if vals = [] then Inr c
      else if fst c + length vals \<le> length (snd c)
      then Inr (fst c + length vals,
                take (fst c) (snd c) @ vals @ drop (fst c + length vals) (snd c))
      else Inl OutOfBounds)"

definition box :: "real \<Rightarrow> real \<Rightarrow> real \<Rightarrow> real \<Rightarrow> int \<Rightarrow> int \<Rightarrow> real list" where
  "box centerX centerY boxWidth boxHeight imageWidth imageHeight =
     [(centerX - boxWidth / 2) / real_of_int imageWidth,
      (centerY - boxHeight / 2) / real_of_int imageHeight,
      (centerX + boxWidth / 2) / real_of_int imageWidth,
      (centerY + boxHeight / 2) / real_of_int imageHeight]"

definition sizeVals :: "PriorBoxLayer \<Rightarrow> real \<Rightarrow> real \<Rightarrow> int \<Rightarrow> int \<Rightarrow> int \<Rightarrow> real list" where
  "sizeVals L centerX centerY imageWidth imageHeight m =
     box centerX centerY (real_of_int m) (real_of_int m) imageWidth imageHeight
     @ concat (map (\<lambda>maxS. box centerX centerY
                                (real_of_int (truncSqrt (m * maxS)))
                                (real_of_int (truncSqrt (m * maxS)))
                                imageWidth imageHeight) (maxSize L))"

definition ratioVals :: "real \<Rightarrow> real \<Rightarrow> int \<Rightarrow> int \<Rightarrow> int \<Rightarrow> real \<Rightarrow> real list" where
  "ratioVals centerX centerY imageWidth imageHeight m ar =
     (if nearOne ar then []
      else box centerX centerY (real_of_int m * sqrt ar) (real_of_int m / sqrt ar)
             imageWidth imageHeight)"

definition cellVals :: "PriorBoxLayer \<Rightarrow> int \<Rightarrow> int \<Rightarrow> real \<Rightarrow> real \<Rightarrow> nat \<Rightarrow> nat \<Rightarrow> real list" where
  "cellVals L imageWidth imageHeight stepW stepH h w =
     (let centerX = (real w + 1 / 2) * stepW;
          centerY = (real h + 1 / 2) * stepH
      in concat (map (sizeVals L centerX centerY imageWidth imageHeight) (minSize L))
         @ concat (map (ratioVals centerX centerY imageWidth imageHeight (last (0 # minSize L)))
                     (aspectRatio L)))"

definition gridVals :: "PriorBoxLayer \<Rightarrow> int \<Rightarrow> int \<Rightarrow> int \<Rightarrow> int \<Rightarrow> real list" where
  "gridVals L layerWidth layerHeight imageWidth imageHeight =
     concat (map (\<lambda>h. concat (map (\<lambda>w.
        cellVals L imageWidth imageHeight
          (real_of_int imageWidth / real_of_int layerWidth)
          (real_of_int imageHeight / real_of_int layerHeight) h w)
        [0..<nat layerWidth])) [0..<nat layerHeight])"

text \<open>The values \<open>f centerX centerY\<close> of all the cells of the grid, row by row, at the
  centres that \<^verbatim>\<open>forward\<close> computes:
  \<^verbatim>\<open>centerX = (w + 0.5) * stepW\<close> with \<^verbatim>\<open>stepW = imageWidth / layerWidth\<close>, and
  \<^verbatim>\<open>centerY = (h + 0.5) * stepH\<close> with \<^verbatim>\<open>stepH = imageHeight / layerHeight\<close>.\<close>

definition overCells :: "int \<Rightarrow> int \<Rightarrow> int \<Rightarrow> int \<Rightarrow> (real \<Rightarrow> real \<Rightarrow> real list) \<Rightarrow> real list" where
  "overCells layerWidth layerHeight imageWidth imageHeight f =
     concat (map (\<lambda>h. concat (map (\<lambda>w.
        f ((real w + 1 / 2) * (real_of_int imageWidth / real_of_int layerWidth))
          ((real h + 1 / 2) * (real_of_int imageHeight / real_of_int layerHeight)))
        [0..<nat layerWidth])) [0..<nat layerHeight])"

definition clip1 :: "real \<Rightarrow> real" where
  "clip1 v = min (max v 0) 1"

section \<open>What the loops write\<close>

subsection \<open>Runs of stores\<close>

lemma put_writes: "put v = writes [v]"
  by (rule ext) (auto simp: put_def writes_def upd_conv_take_nth_drop Suc_le_eq split: prod.splits)

lemma andThen_writes: "andThen (writes xs) (writes ys) = writes (xs @ ys)"
proof (rule ext)
  fix c :: cursor
  obtain idx buf where c: "c = (idx, buf)" by (cases c)
  show "andThen (writes xs) (writes ys) c = writes (xs @ ys) c"
  proof (cases "xs = []")
    case True
    then show ?thesis by (simp add: andThen_def writes_def)
  next
    case xs: False
    show ?thesis
    proof (cases "ys = []")
      case True
      then show ?thesis by (simp add: andThen_def writes_def)
    next
      case ys: False
      show ?thesis
      proof (cases "idx + length xs \<le> length buf")
        case False
        then show ?thesis using xs ys c by (simp add: andThen_def writes_def)
      next
        case fit: True
        let ?buf1 = "take idx buf @ xs @ drop (idx + length xs) buf"
        have len1: "length ?buf1 = length buf" using fit by simp
        have step: "writes xs c = Inr (idx + length xs, ?buf1)"
          using xs c fit by (simp add: writes_def)
        show ?thesis
        proof (cases "idx + length xs + length ys \<le> length buf")
          case False
          then show ?thesis
            using xs ys c step len1 by (simp add: andThen_def writes_def add.assoc)
        next
          case True
          have t: "take (idx + length xs) ?buf1 = take idx buf @ xs"
            using fit by simp
          have d: "drop (idx + length xs + length ys) ?buf1
                     = drop (idx + length xs + length ys) buf"
            using fit True by (simp add: add.commute add.left_commute)
          have "writes ys (idx + length xs, ?buf1)
                  = Inr (idx + length xs + length ys,
                         (take idx buf @ xs) @ ys @ drop (idx + length xs + length ys) buf)"
            unfolding writes_def fst_conv snd_conv len1 t d using ys True by simp
          then show ?thesis
            using xs c step True by (simp add: andThen_def writes_def add.assoc)
        qed
      qed
    qed
  qed
qed

lemma forEach_Cons_andThen: "forEach (x # xs) body = andThen (body x) (forEach xs body)"
  by (rule ext) (simp add: andThen_def)

lemma forEach_writes: "forEach xs (\<lambda>x. writes (f x)) = writes (concat (map f xs))"
proof (induction xs)
  case Nil
  show ?case by (rule ext) (simp add: writes_def)
next
  case (Cons x xs)
  show ?case
    unfolding forEach_Cons_andThen Cons.IH by (simp add: andThen_writes)
qed

lemma storeBox_writes: "storeBox cx cy bw bh iw ih = writes (box cx cy bw bh iw ih)"
  by (simp add: storeBox_def box_def put_writes andThen_writes)

lemma andThen_apply: "(case writes xs c of Inl e \<Rightarrow> Inl e | Inr c1 \<Rightarrow> writes ys c1) = writes (xs @ ys) c"
  using fun_cong [OF andThen_writes [of xs ys], of c] by (simp add: andThen_def)

lemma sizeBody_writes:
  assumes "checkOk L"
  shows "sizeBody L cx cy iw ih m st =
           (case writes (sizeVals L cx cy iw ih m) (snd st) of
              Inl e \<Rightarrow> Inl e | Inr c \<Rightarrow> Inr (m, c))"
proof (cases "maxSize L = []")
  case True
  then show ?thesis
    by (simp add: sizeBody_def sizeVals_def storeBox_writes split: sum.splits)
next
  case False
  with assms have eq: "length (minSize L) = length (maxSize L)"
    by (simp add: checkOk_def)
  let ?A = "box cx cy (real_of_int m) (real_of_int m) iw ih"
  let ?B = "concat (map (\<lambda>maxS. box cx cy (real_of_int (truncSqrt (m * maxS)))
                (real_of_int (truncSqrt (m * maxS))) iw ih) (maxSize L))"
  have "sizeBody L cx cy iw ih m st =
          (case writes ?A (snd st) of Inl e \<Rightarrow> Inl e
           | Inr c1 \<Rightarrow> (case writes ?B c1 of Inl e \<Rightarrow> Inl e | Inr c2 \<Rightarrow> Inr (m, c2)))"
    using False eq by (auto simp: sizeBody_def storeBox_writes forEach_writes split: sum.splits)
  also have "\<dots> = (case (case writes ?A (snd st) of Inl e \<Rightarrow> Inl e | Inr c1 \<Rightarrow> writes ?B c1) of
                     Inl e \<Rightarrow> Inl e | Inr c2 \<Rightarrow> Inr (m, c2))"
    by (simp split: sum.splits)
  finally show ?thesis
    by (simp add: andThen_apply sizeVals_def)
qed

lemma sizeLoop_writes:
  assumes "checkOk L"
  shows "forEach xs (sizeBody L cx cy iw ih) (m0, c) =
           (case writes (concat (map (sizeVals L cx cy iw ih) xs)) c of
              Inl e \<Rightarrow> Inl e | Inr c' \<Rightarrow> Inr (last (m0 # xs), c'))"
proof (induction xs arbitrary: m0 c)
  case Nil
  show ?case by (simp add: writes_def)
next
  case (Cons x xs)
  have split: "writes (concat (map (sizeVals L cx cy iw ih) (x # xs))) c =
          (case writes (sizeVals L cx cy iw ih x) c of Inl e \<Rightarrow> Inl e
           | Inr c1 \<Rightarrow> writes (concat (map (sizeVals L cx cy iw ih) xs)) c1)"
    by (simp add: andThen_apply)
  have lst: "last (m0 # x # xs) = last (x # xs)" by simp
  show ?case
  proof (cases "writes (sizeVals L cx cy iw ih x) c")
    case (Inl e)
    then have "sizeBody L cx cy iw ih x (m0, c) = Inl e"
      by (simp add: sizeBody_writes [OF assms])
    then show ?thesis
      unfolding split using Inl by simp
  next
    case (Inr c1)
    then have "sizeBody L cx cy iw ih x (m0, c) = Inr (x, c1)"
      by (simp add: sizeBody_writes [OF assms])
    then have "forEach (x # xs) (sizeBody L cx cy iw ih) (m0, c)
                 = forEach xs (sizeBody L cx cy iw ih) (x, c1)"
      by simp
    then show ?thesis
      unfolding split lst using Inr Cons.IH [of x c1] by (simp del: last.simps)
  qed
qed

lemma ratioBody_writes: "ratioBody cx cy iw ih m ar = writes (ratioVals cx cy iw ih m ar)"
  by (rule ext) (simp add: ratioBody_def ratioVals_def storeBox_writes writes_def)

lemma ratioLoop_writes:
  "forEach ars (ratioBody cx cy iw ih m) = writes (concat (map (ratioVals cx cy iw ih m) ars))"
proof -
  have "ratioBody cx cy iw ih m = (\<lambda>ar. writes (ratioVals cx cy iw ih m ar))"
    by (rule ext) (rule ratioBody_writes)
  then show ?thesis by (simp add: forEach_writes)
qed

lemma cellPriors_writes:
  assumes "checkOk L \<or> minSize L = []"
  shows "cellPriors L iw ih stepW stepH h w = writes (cellVals L iw ih stepW stepH h w)"
proof (rule ext)
  fix c
  let ?cx = "(real w + 1 / 2) * stepW" and ?cy = "(real h + 1 / 2) * stepH"
  have loop: "forEach (minSize L) (sizeBody L ?cx ?cy iw ih) (0, c) =
           (case writes (concat (map (sizeVals L ?cx ?cy iw ih) (minSize L))) c of
              Inl e \<Rightarrow> Inl e | Inr c' \<Rightarrow> Inr (last (0 # minSize L), c'))"
  proof (cases "checkOk L")
    case True
    then show ?thesis by (rule sizeLoop_writes)
  next
    case False
    with assms have "minSize L = []" by simp
    then show ?thesis by (simp add: writes_def)
  qed
  show "cellPriors L iw ih stepW stepH h w c = writes (cellVals L iw ih stepW stepH h w) c"
    unfolding cellPriors_def cellVals_def Let_def loop ratioLoop_writes
    by (simp add: andThen_apply [symmetric] split: sum.splits)
qed

lemma priorLoops_writes:
  assumes "checkOk L \<or> minSize L = []"
  shows "priorLoops L W H iw ih = writes (gridVals L W H iw ih)"
  unfolding priorLoops_def gridVals_def Let_def cellPriors_writes [OF assms] forEach_writes ..

subsection \<open>How many values the box loops write\<close>

lemma length_box: "length (box cx cy bw bh iw ih) = 4"
  by (simp add: box_def)

lemma length_concat_const:
  assumes "\<And>x. x \<in> set xs \<Longrightarrow> length (f x) = k"
  shows "length (concat (map f xs)) = length xs * k"
  using assms by (induction xs) simp_all

lemma length_sizeVals: "length (sizeVals L cx cy iw ih m) = 4 * (1 + length (maxSize L))"
  by (simp add: sizeVals_def length_box length_concat_const [where k = 4])

lemma length_ratioVals_concat:
  "length (concat (map (ratioVals cx cy iw ih m) ars)) = 4 * (length ars - countOfUnityRatios ars)"
proof (induction ars)
  case Nil
  show ?case by (simp add: countOfUnityRatios_def)
next
  case (Cons ar ars)
  have le: "length (filter nearOne ars) \<le> length ars" by simp
  show ?case
    using Cons le
    by (simp add: ratioVals_def countOfUnityRatios_def length_box Suc_diff_le)
qed

lemma length_cellVals: "length (cellVals L iw ih stepW stepH h w) = 4 * actualPriorsPerCell L"
  by (simp add: cellVals_def Let_def actualPriorsPerCell_def length_ratioVals_concat
      length_concat_const [where k = "4 * (1 + length (maxSize L))"] length_sizeVals
      algebra_simps)

lemma length_gridVals:
  "length (gridVals L W H iw ih) = 4 * (nat H * nat W * actualPriorsPerCell L)"
proof -
  let ?k = "4 * actualPriorsPerCell L"
  have row: "\<And>h. length (concat (map (\<lambda>w. cellVals L iw ih
        (real_of_int iw / real_of_int W) (real_of_int ih / real_of_int H) h w) [0..<nat W]))
       = nat W * ?k"
    by (simp add: length_concat_const [where k = ?k] length_cellVals)
  show ?thesis
    unfolding gridVals_def
    by (simp add: length_concat_const [where k = "nat W * ?k"] row)
qed

lemma clip_Suc: "clip (Suc n) buf = (clip n buf)[n := clip1 (clip n buf ! n)]"
  by (simp add: clip_def clip1_def)

lemma length_clip: "length (clip n buf) = length buf"
proof (induction n)
  case 0
  show ?case by (simp add: clip_def)
next
  case (Suc n)
  then show ?case by (simp add: clip_Suc)
qed

lemma nth_clip:
  "i < length buf \<Longrightarrow> clip n buf ! i = (if i < n then clip1 (buf ! i) else buf ! i)"
proof (induction n)
  case 0
  show ?case by (simp add: clip_def)
next
  case (Suc n)
  then show ?case
    by (cases "i = n") (simp_all add: clip_Suc length_clip)
qed

lemma clip_eq: "n \<le> length buf \<Longrightarrow> clip n buf = map clip1 (take n buf) @ drop n buf"
  by (rule nth_equalityI) (auto simp: length_clip nth_clip nth_append)

lemma clip1_range: "0 \<le> clip1 v \<and> clip1 v \<le> 1"
  by (simp add: clip1_def)

subsection \<open>The variance loops\<close>

lemma forEach_all_Inr:
  assumes "\<And>x s. x \<in> set xs \<Longrightarrow> body x s = Inr s"
  shows "forEach xs body s = Inr s"
  using assms by (induction xs) simp_all

lemma forEach_const_fail: "xs \<noteq> [] \<Longrightarrow> forEach xs (\<lambda>x c. Inl e) s = Inl e"
  by (cases xs) simp_all

lemma forEach_replicate: "forEach xs (\<lambda>x. writes v) = writes (concat (replicate (length xs) v))"
  by (simp add: forEach_writes map_replicate_const)

lemma concat_replicate_mult:
  "concat (replicate a (concat (replicate b v))) = concat (replicate (a * b) v)"
  by (induction a) (simp_all add: replicate_add)

lemma take4: "4 \<le> length v \<Longrightarrow> take 4 v = [v ! 0, v ! 1, v ! 2, v ! 3]"
  by (rule nth_equalityI) (auto simp: less_Suc_eq numeral_eq_Suc)

lemma upt4: "[0..<4] = [0, 1, 2, 3]"
  by code_simp

lemma varianceInner:
  "forEach [0..<4] (varianceBody L) =
     (if 4 \<le> length (variance L) then writes (take 4 (variance L)) else (\<lambda>c. Inl OutOfBounds))"
proof (cases "4 \<le> length (variance L)")
  case True
  then have "\<And>j. j \<in> set [0, 1, 2, 3::nat] \<Longrightarrow> varianceBody L j = writes [variance L ! j]"
    by (auto simp: varianceBody_def put_writes fun_eq_iff)
  then have "forEach [0, 1, 2, 3] (varianceBody L)
               = andThen (writes [variance L ! 0]) (andThen (writes [variance L ! 1])
                   (andThen (writes [variance L ! 2]) (writes [variance L ! 3])))"
    by (simp add: fun_eq_iff andThen_def split: sum.splits)
  then show ?thesis
    using True by (simp add: upt4 andThen_writes take4)
next
  case False
  have "forEach [0, 1, 2, 3] (varianceBody L) c = Inl OutOfBounds" for c
    using False
    by (auto simp: varianceBody_def put_def split: sum.splits prod.splits if_splits)
  then show ?thesis
    using False by (simp add: upt4 fun_eq_iff)
qed

lemma varianceLoops_writes:
  assumes "4 \<le> length (variance L)"
  shows "varianceLoops L W H =
           writes (concat (replicate (nat H * nat W * nat (numPriors L)) (take 4 (variance L))))"
  unfolding varianceLoops_def
  using assms
  by (simp add: varianceInner forEach_replicate concat_replicate_mult mult.assoc)

lemma varianceLoops_fail:
  assumes "length (variance L) < 4" "0 < H" "0 < W" "0 < numPriors L"
  shows "varianceLoops L W H c = Inl OutOfBounds"
proof -
  have ne: "[0..<nat H] \<noteq> []" "[0..<nat W] \<noteq> []" "[0..<nat (numPriors L)] \<noteq> []"
    using assms by simp_all
  have inner: "forEach [0..<4] (varianceBody L) = (\<lambda>c. Inl OutOfBounds)"
    using assms(1) by (simp add: varianceInner)
  have l3: "forEach [0..<nat (numPriors L)] (\<lambda>i. forEach [0..<4] (varianceBody L))
              = (\<lambda>c. Inl OutOfBounds)"
    unfolding inner using ne(3) by (simp add: fun_eq_iff forEach_const_fail)
  have l2: "forEach [0..<nat W] (\<lambda>w. forEach [0..<nat (numPriors L)]
               (\<lambda>i. forEach [0..<4] (varianceBody L))) = (\<lambda>c. Inl OutOfBounds)"
    unfolding l3 using ne(2) by (simp add: fun_eq_iff forEach_const_fail)
  show ?thesis
    unfolding varianceLoops_def l2 using ne(1) by (simp add: forEach_const_fail)
qed

lemma varianceLoops_empty:
  assumes "H \<le> 0 \<or> W \<le> 0 \<or> numPriors L \<le> 0"
  shows "varianceLoops L W H c = Inr c"
  unfolding varianceLoops_def
  using assms
  by (auto intro!: forEach_all_Inr)

subsection \<open>The derived ratios\<close>

lemma flip_eq:
  "n \<le> length ar \<Longrightarrow> flip index n ar = ar @ map (\<lambda>i. 1 / (ar ! i)) [index..<n]"
proof (induction index n ar rule: flip.induct)
  case (1 index n ar)
  show ?case
  proof (cases "index < n")
    case True
    have "flip index n ar = flip (Suc index) n (ar @ [1 / (ar ! index)])"
      using True by (subst flip.simps) simp
    also have "\<dots> = (ar @ [1 / (ar ! index)])
                      @ map (\<lambda>i. 1 / ((ar @ [1 / (ar ! index)]) ! i)) [Suc index..<n]"
      using "1.IH" [OF True] "1.prems" by simp
    also have "map (\<lambda>i. 1 / ((ar @ [1 / (ar ! index)]) ! i)) [Suc index..<n]
                 = map (\<lambda>i. 1 / (ar ! i)) [Suc index..<n]"
      using "1.prems" by (simp add: nth_append)
    finally show ?thesis
      using True by (simp add: upt_conv_Cons)
  next
    case False
    then show ?thesis by (subst flip.simps) simp
  qed
qed

lemma flip_all: "flip 0 (length ar) ar = ar @ map (\<lambda>r. 1 / r) ar"
proof -
  have "map (\<lambda>i. 1 / (ar ! i)) [0..<length ar] = map (\<lambda>r. 1 / r) (map ((!) ar) [0..<length ar])"
    by simp
  then show ?thesis
    by (simp add: flip_eq map_nth del: map_map)
qed

lemma init_fields:
  "numPriors (snd (init pbConf)) =
     int (2 * length (aspect_ratio pbConf) + 1) + (if max_size pbConf = [] then 0 else 1)"
  "minSize (snd (init pbConf)) = min_size pbConf"
  "maxSize (snd (init pbConf)) = max_size pbConf"
  "aspectRatio (snd (init pbConf)) =
     aspect_ratio pbConf @ map (\<lambda>r. 1 / r) (aspect_ratio pbConf) @ [1]"
  "variance (snd (init pbConf)) = conf_variance pbConf"
  by (simp_all add: init_def Let_def flip_all)

subsection \<open>The whole of forward\<close>

lemma writes_ok:
  "fst c + length vals \<le> length (snd c) \<Longrightarrow>
   writes vals c = Inr (fst c + length vals,
                        take (fst c) (snd c) @ vals @ drop (fst c + length vals) (snd c))"
  by (cases c) (simp add: writes_def)

lemma writes_fail:
  "vals \<noteq> [] \<Longrightarrow> \<not> fst c + length vals \<le> length (snd c) \<Longrightarrow> writes vals c = Inl OutOfBounds"
  by (simp add: writes_def)

lemma writes_error: "writes vals c = Inl e \<Longrightarrow> e = OutOfBounds"
  by (simp add: writes_def split: if_splits)

lemma length_concat_replicate: "length (concat (replicate n xs)) = n * length xs"
  by (induction n) simp_all

lemma nat_dim:
  assumes "0 \<le> W" "0 \<le> H" "0 \<le> np"
  shows "nat (H * W * np * 4) = 4 * (nat H * nat W * nat np)"
    and "nat (H * W * np * 4 * 2) = 2 * (4 * (nat H * nat W * nat np))"
proof -
  have "H * W * np * 4 = int (4 * (nat H * nat W * nat np))"
    using assms by simp
  then show "nat (H * W * np * 4) = 4 * (nat H * nat W * nat np)"
    by (simp only: nat_int)
  have "H * W * np * 4 * 2 = int (2 * (4 * (nat H * nat W * nat np)))"
    using assms by simp
  then show "nat (H * W * np * 4 * 2) = 2 * (4 * (nat H * nat W * nat np))"
    by (simp only: nat_int)
qed

lemma forward_ok:
  fixes L :: PriorBoxLayer and W H iw ih :: int and mem :: "nat \<Rightarrow> real"
  assumes ok: "checkOk L \<or> minSize L = []" and v: "4 \<le> length (variance L)"
    and W: "0 \<le> W" and H: "0 \<le> H" and np: "0 \<le> numPriors L"
  defines "G \<equiv> gridVals L W H iw ih"
    and "V \<equiv> concat (replicate (nat H * nat W * nat (numPriors L)) (take 4 (variance L)))"
    and "buf0 \<equiv> resizeOrCreate mem (nat (H * W * numPriors L * 4 * 2))"
  shows "forward L W H iw ih mem =
           (if length G \<le> length V
            then Inr (map clip1 G @ V @ drop (length G + length V) buf0)
            else Inl OutOfBounds)"
proof -
  have lenV: "length V = 4 * (nat H * nat W * nat (numPriors L))"
    using v by (simp add: V_def length_concat_replicate)
  have dim: "nat (H * W * numPriors L * 4) = length V"
    using nat_dim(1) [OF W H np] lenV by simp
  have len0: "length buf0 = 2 * length V"
    using nat_dim(2) [OF W H np] lenV by (simp add: buf0_def resizeOrCreate_def)
  have fwd: "forward L W H iw ih mem =
      (case writes G (0, buf0) of Inl e \<Rightarrow> Inl e
       | Inr (idx, buf1) \<Rightarrow>
           (case writes V (idx, clip (length V) buf1) of Inl e \<Rightarrow> Inl e
            | Inr (idx', buf2) \<Rightarrow> Inr buf2))"
    unfolding forward_def Let_def priorLoops_writes [OF ok] varianceLoops_writes [OF v]
      G_def [symmetric] V_def [symmetric] buf0_def [symmetric] dim ..
  show ?thesis
  proof (cases "length G \<le> length V")
    case True
    let ?buf1 = "G @ drop (length G) buf0"
    have w1: "writes G (0, buf0) = Inr (length G, ?buf1)"
      using writes_ok [of "(0, buf0)" G] True len0 by simp
    have len1: "length ?buf1 = 2 * length V"
      using True len0 by simp
    let ?bufc = "clip (length V) ?buf1"
    have c: "?bufc = map clip1 (take (length V) ?buf1) @ drop (length V) ?buf1"
      using len1 by (intro clip_eq) linarith
    have lenc: "length ?bufc = 2 * length V"
      by (simp only: length_clip len1)
    have w2: "writes V (length G, ?bufc)
                = Inr (length G + length V,
                       take (length G) ?bufc @ V @ drop (length G + length V) ?bufc)"
      using writes_ok [of "(length G, ?bufc)" V] True lenc by simp
    have t: "take (length G) ?bufc = map clip1 G"
      unfolding c using True by (simp add: take_map)
    have d: "drop (length G + length V) ?bufc = drop (length G + length V) buf0"
      unfolding c using True len0 by (simp add: drop_map add.commute)
    show ?thesis
      unfolding fwd w1 using True by (simp add: w2 t d)
  next
    case False
    show ?thesis
    proof (cases "length G \<le> length buf0")
      case fit: True
      let ?buf1 = "G @ drop (length G) buf0"
      have w1: "writes G (0, buf0) = Inr (length G, ?buf1)"
        using writes_ok [of "(0, buf0)" G] fit by simp
      have lenc: "length (clip (length V) ?buf1) = 2 * length V"
        using fit len0 by (simp add: length_clip)
      have "V \<noteq> []" using False fit len0 by auto
      then have "writes V (length G, clip (length V) ?buf1) = Inl OutOfBounds"
        using False lenc by (intro writes_fail) simp_all
      then show ?thesis
        unfolding fwd w1 using False by simp
    next
      case nofit: False
      then have "G \<noteq> []" by auto
      then have "writes G (0, buf0) = Inl OutOfBounds"
        using nofit by (intro writes_fail) simp_all
      then show ?thesis
        unfolding fwd using False by simp
    qed
  qed
qed

lemma priorLoops_empty:
  assumes "H \<le> 0 \<or> W \<le> 0"
  shows "priorLoops L W H iw ih c = Inr c"
  unfolding priorLoops_def Let_def
  using assms by (auto intro!: forEach_all_Inr)

lemma sizeBody_check_fails:
  assumes "\<not> checkOk L"
  shows "sizeBody L cx cy iw ih m st =
           (case writes (box cx cy (real_of_int m) (real_of_int m) iw ih) (snd st) of
              Inl e \<Rightarrow> Inl e | Inr c1 \<Rightarrow> Inl CheckEqFailed)"
  using assms by (auto simp: sizeBody_def checkOk_def storeBox_writes split: sum.splits)

lemma cellPriors_check_fails:
  assumes "\<not> checkOk L" "minSize L \<noteq> []"
  shows "cellPriors L iw ih stepW stepH h w c =
           (case writes (box ((real w + 1 / 2) * stepW) ((real h + 1 / 2) * stepH)
                          (real_of_int (hd (minSize L))) (real_of_int (hd (minSize L))) iw ih) c of
              Inl e \<Rightarrow> Inl e | Inr c1 \<Rightarrow> Inl CheckEqFailed)"
proof -
  obtain m ms where ms: "minSize L = m # ms"
    using assms(2) by (cases "minSize L") auto
  show ?thesis
    unfolding cellPriors_def Let_def ms
    by (simp add: sizeBody_check_fails [OF assms(1)] split: sum.splits)
qed

lemma priorLoops_check_fails:
  assumes "\<not> checkOk L" "minSize L \<noteq> []" "0 < W" "0 < H"
  shows "priorLoops L W H iw ih c =
           (case writes (box ((1 / 2) * (real_of_int iw / real_of_int W))
                             ((1 / 2) * (real_of_int ih / real_of_int H))
                          (real_of_int (hd (minSize L))) (real_of_int (hd (minSize L))) iw ih) c of
              Inl e \<Rightarrow> Inl e | Inr c1 \<Rightarrow> Inl CheckEqFailed)"
proof -
  have h: "[0..<nat H] = 0 # [1..<nat H]" and w: "[0..<nat W] = 0 # [1..<nat W]"
    using assms(3,4) by (simp_all add: upt_conv_Cons)
  show ?thesis
    unfolding priorLoops_def Let_def h w
    by (simp add: cellPriors_check_fails [OF assms(1,2)] split: sum.splits)
qed

lemma varianceLoops_error: "varianceLoops L W H c = Inl e \<Longrightarrow> e = OutOfBounds"
proof (cases "4 \<le> length (variance L)")
  case True
  assume "varianceLoops L W H c = Inl e"
  then show ?thesis
    unfolding varianceLoops_writes [OF True] by (rule writes_error)
next
  case False
  assume e: "varianceLoops L W H c = Inl e"
  show ?thesis
  proof (cases "0 < H \<and> 0 < W \<and> 0 < numPriors L")
    case True
    then show ?thesis
      using varianceLoops_fail [of L H W c] False e by simp
  next
    case False
    then have "H \<le> 0 \<or> W \<le> 0 \<or> numPriors L \<le> 0" by auto
    then show ?thesis
      using varianceLoops_empty [of H W L c] e by simp
  qed
qed

lemma sizeLoop_last:
  "forEach xs (sizeBody L cx cy iw ih) (m0, c) = Inr (m, c1) \<Longrightarrow> m = last (m0 # xs)"
proof (induction xs arbitrary: m0 c)
  case Nil
  then show ?case by simp
next
  case (Cons x xs)
  from Cons.prems obtain st where st: "sizeBody L cx cy iw ih x (m0, c) = Inr st"
    and rest: "forEach xs (sizeBody L cx cy iw ih) st = Inr (m, c1)"
    by (auto split: sum.splits)
  from st have "fst st = x"
    by (auto simp: sizeBody_def split: sum.splits if_splits)
  then obtain c' where "st = (x, c')" by (cases st) auto
  with rest have "m = last (x # xs)" using Cons.IH by blast
  then show ?case by simp
qed

subsection \<open>Valid configurations\<close>

lemma valid_layer:
  assumes "validConfig pbConf"
  shows "checkOk (snd (init pbConf))"
    and "length (variance (snd (init pbConf))) = 4"
    and "0 < numPriors (snd (init pbConf))"
  using assms by (auto simp: validConfig_def checkOk_def init_fields)

lemma forward_valid:
  fixes pbConf :: PriorBoxConfig and W H iw ih :: int and mem :: "nat \<Rightarrow> real"
  assumes valid: "validConfig pbConf" and W: "0 \<le> W" and H: "0 \<le> H"
  defines "L \<equiv> snd (init pbConf)"
  defines "cells \<equiv> nat H * nat W"
  shows "forward L W H iw ih mem =
           (if cells = 0 \<or> actualPriorsPerCell L \<le> nat (numPriors L)
            then Inr (map clip1 (gridVals L W H iw ih)
                      @ concat (replicate (cells * nat (numPriors L)) (variance L))
                      @ drop (4 * (cells * actualPriorsPerCell L) + 4 * (cells * nat (numPriors L)))
                          (resizeOrCreate mem (nat (H * W * numPriors L * 4 * 2))))
            else Inl OutOfBounds)"
proof -
  have ok: "checkOk L \<or> minSize L = []" and v4: "length (variance L) = 4"
    and np: "0 \<le> numPriors L"
    using valid_layer [OF valid] by (simp_all add: L_def)
  have v: "4 \<le> length (variance L)" using v4 by simp
  have tk: "take 4 (variance L) = variance L" using v4 by simp
  have lenV: "length (concat (replicate (nat H * nat W * nat (numPriors L)) (variance L)))
                = 4 * (cells * nat (numPriors L))"
    by (simp add: length_concat_replicate v4 cells_def)
  have lenG: "length (gridVals L W H iw ih) = 4 * (cells * actualPriorsPerCell L)"
    by (simp add: length_gridVals cells_def)
  show ?thesis
    unfolding forward_ok [OF ok v W H np] tk lenV lenG
    by (auto simp: cells_def)
qed

lemma nat_cells: "0 \<le> W \<Longrightarrow> 0 \<le> H \<Longrightarrow> nat (H * W) = nat H * nat W"
  by (simp add: nat_mult_distrib)



lemma forward_CheckEqFailed_prior:
  assumes "forward L W H iw ih mem = Inl CheckEqFailed"
  shows "priorLoops L W H iw ih (0, resizeOrCreate mem (nat (H * W * numPriors L * 4 * 2)))
           = Inl CheckEqFailed"
  using assms unfolding forward_def Let_def
  by (auto split: sum.splits prod.splits dest: varianceLoops_error)

lemma forward_deterministic_when_full:
  assumes "validConfig pbConf" and "0 \<le> W" and "0 \<le> H"
    and "actualPriorsPerCell (snd (init pbConf)) = nat (numPriors (snd (init pbConf)))"
  shows "forward (snd (init pbConf)) W H iw ih mem = forward (snd (init pbConf)) W H iw ih mem'"
proof -
  let ?L = "snd (init pbConf)"
  have np: "0 \<le> numPriors ?L" using valid_layer(3) [OF assms(1)] by simp
  have "length (resizeOrCreate m (nat (H * W * numPriors ?L * 4 * 2)))
          = 2 * (4 * (nat H * nat W * nat (numPriors ?L)))" for m
    unfolding nat_dim(2) [OF assms(2,3) np] by (simp add: resizeOrCreate_def)
  then have "drop (4 * (nat H * nat W * actualPriorsPerCell ?L)
                   + 4 * (nat H * nat W * nat (numPriors ?L)))
               (resizeOrCreate m (nat (H * W * numPriors ?L * 4 * 2))) = []" for m
    using assms(4) by simp
  then show ?thesis
    unfolding forward_valid [OF assms(1,2,3)] by simp
qed

subsection \<open>The square root that is cut to an integer\<close>

lemma truncSqrt_eq:
  assumes "0 \<le> k" "k * k \<le> n" "n < (k + 1) * (k + 1)"
  shows "truncSqrt n = k"
proof -
  have "(real_of_int k)\<^sup>2 \<le> real_of_int n"
    using assms(2) by (metis of_int_le_iff of_int_mult power2_eq_square)
  then have lo: "real_of_int k \<le> sqrt (real_of_int n)"
    by (rule real_le_rsqrt)
  have "0 \<le> real_of_int n"
    using assms(1,2) by (metis mult_nonneg_nonneg of_int_0_le_iff order_trans)
  moreover have "real_of_int n < (real_of_int k + 1)\<^sup>2"
    using assms(3) by (metis of_int_less_iff of_int_mult of_int_add of_int_1 power2_eq_square)
  ultimately have hi: "sqrt (real_of_int n) < real_of_int k + 1"
    using assms(1) by (intro real_less_lsqrt) simp_all
  show ?thesis
    unfolding truncSqrt_def using lo hi by (simp add: floor_eq_iff)
qed

lemma truncSqrt_1800: "truncSqrt 1800 = 42"
  by (rule truncSqrt_eq) simp_all

lemma sqrt_1800_not_42: "sqrt 1800 \<noteq> 42"
proof
  assume "sqrt 1800 = 42"
  then have "(sqrt 1800)\<^sup>2 = 42\<^sup>2" by simp
  then show False by simp
qed

subsection \<open>Runs on the configurations\<close>

lemma replicate2: "replicate 2 x = [x, x]"
  by (simp add: eval_nat_numeral)

lemma replicate3: "replicate 3 x = [x, x, x]"
  by (simp add: eval_nat_numeral)

lemma replicate4: "replicate 4 x = [x, x, x, x]"
  by (simp add: eval_nat_numeral)

lemmas eval_simps =
  gridVals_def cellVals_def sizeVals_def ratioVals_def box_def nearOne_def clip1_def
  init_fields actualPriorsPerCell_def countOfUnityRatios_def resizeOrCreate_def
  real_sqrt_divide replicate2 replicate3 replicate4 zeroMem_def oneMem_def

lemma map_zeroMem: "map zeroMem xs = replicate (length xs) 0"
  by (induction xs) (simp_all add: zeroMem_def)

lemma map_oneMem: "map oneMem xs = replicate (length xs) 1"
  by (induction xs) (simp_all add: oneMem_def)

lemma valid_ratioConf: "validConfig ratioConf"
  by (simp add: validConfig_def ratioConf_def)

lemma forward_ratioConf:
  "forward (snd (init ratioConf)) 1 1 100 100 mem =
     Inr [7 / 20, 7 / 20, 13 / 20, 13 / 20,
          1 / 5, 17 / 40, 4 / 5, 23 / 40,
          17 / 40, 1 / 5, 23 / 40, 4 / 5,
          1 / 10, 1 / 10, 1 / 5, 1 / 5,
          1 / 10, 1 / 10, 1 / 5, 1 / 5,
          1 / 10, 1 / 10, 1 / 5, 1 / 5]"
  by (subst forward_valid [OF valid_ratioConf]) (simp_all add: eval_simps ratioConf_def)

lemma valid_unityConf: "validConfig unityConf"
  by (simp add: validConfig_def unityConf_def)

lemma forward_unityConf:
  "forward (snd (init unityConf)) 1 1 100 100 mem =
     Inr ([7 / 20, 7 / 20, 13 / 20, 13 / 20,
          1 / 10, 1 / 10, 1 / 5, 1 / 5,
          1 / 10, 1 / 10, 1 / 5, 1 / 5,
          1 / 10, 1 / 10, 1 / 5, 1 / 5] @ map mem [16..<24])"
  by (subst forward_valid [OF valid_unityConf]) (simp_all add: eval_simps unityConf_def drop_map)

lemma valid_scenarioB: "validConfig scenarioB"
  by (simp add: validConfig_def scenarioB_def)

lemma forward_scenarioB:
  "forward (snd (init scenarioB)) 1 1 100 100 mem =
     Inr [7 / 20, 7 / 20, 13 / 20, 13 / 20,
          29 / 100, 29 / 100, 71 / 100, 71 / 100,
          1 / 10, 1 / 10, 1 / 5, 1 / 5,
          1 / 10, 1 / 10, 1 / 5, 1 / 5]"
  by (subst forward_valid [OF valid_scenarioB])
     (simp_all add: eval_simps scenarioB_def truncSqrt_1800)

lemma forward_noMinConf:
  "forward (snd (init noMinConf)) 1 1 100 100 mem =
     Inr ([1 / 2, 1 / 2, 1 / 2, 1 / 2, 1 / 2, 1 / 2, 1 / 2, 1 / 2,
           1 / 10, 1 / 10, 1 / 5, 1 / 5, 1 / 10, 1 / 10, 1 / 5, 1 / 5,
           1 / 10, 1 / 10, 1 / 5, 1 / 5, 1 / 10, 1 / 10, 1 / 5, 1 / 5] @ map mem [24..<32])"
proof -
  have ok: "checkOk (snd (init noMinConf)) \<or> minSize (snd (init noMinConf)) = []"
    by (simp add: init_fields noMinConf_def)
  have v: "4 \<le> length (variance (snd (init noMinConf)))"
    by (simp add: init_fields noMinConf_def)
  have np: "0 \<le> numPriors (snd (init noMinConf))"
    by (simp add: init_fields noMinConf_def)
  have one: "(0::int) \<le> 1" by simp
  let ?G = "gridVals (snd (init noMinConf)) 1 1 100 100"
  let ?V = "concat (replicate (nat 1 * nat 1 * nat (numPriors (snd (init noMinConf))))
              (take 4 (variance (snd (init noMinConf)))))"
  have G: "?G = [1 / 2, 1 / 2, 1 / 2, 1 / 2, 1 / 2, 1 / 2, 1 / 2, 1 / 2]"
    by (simp add: eval_simps noMinConf_def)
  have V: "?V = [1 / 10, 1 / 10, 1 / 5, 1 / 5, 1 / 10, 1 / 10, 1 / 5, 1 / 5,
                 1 / 10, 1 / 10, 1 / 5, 1 / 5, 1 / 10, 1 / 10, 1 / 5, 1 / 5]"
    by (simp add: eval_simps noMinConf_def)
  have lg: "length ?G = 8" unfolding G by simp
  have lv: "length ?V = 16" unfolding V by simp
  have B: "drop (8 + 16) (resizeOrCreate mem (nat (1 * 1 * numPriors (snd (init noMinConf)) * 4 * 2)))
             = map mem [24..<32]"
    by (simp add: resizeOrCreate_def init_fields noMinConf_def drop_map)
  show ?thesis
    unfolding forward_ok [OF ok v one one np] lg lv B
    unfolding G V by (simp add: clip1_def)
qed

subsection \<open>The cells of the grid\<close>

lemma gridVals_overCells:
  "gridVals L W H iw ih =
     overCells W H iw ih (\<lambda>centerX centerY.
       concat (map (sizeVals L centerX centerY iw ih) (minSize L))
       @ concat (map (ratioVals centerX centerY iw ih (last (0 # minSize L))) (aspectRatio L)))"
  by (simp add: gridVals_def cellVals_def overCells_def Let_def)

lemma writes_from_start:
  "writes vals (0, buf) =
     (if length vals \<le> length buf then Inr (length vals, vals @ drop (length vals) buf)
      else Inl OutOfBounds)"
  by (auto simp: writes_def)

lemma forward_valid_returns:
  assumes "validConfig pbConf" and "0 \<le> W" and "0 \<le> H"
    and "actualPriorsPerCell (snd (init pbConf)) \<le> nat (numPriors (snd (init pbConf)))"
  shows "\<exists>out. forward (snd (init pbConf)) W H iw ih mem = Inr out
           \<and> take (length (gridVals (snd (init pbConf)) W H iw ih)) out
               = map clip1 (gridVals (snd (init pbConf)) W H iw ih)"
  unfolding forward_valid [OF assms(1,2,3)] using assms(4) by simp

lemma centre_in_unit:
  assumes "0 < (n::int)" and "0 < (d::int)" and "k < nat n"
  shows "0 \<le> (real k + 1 / 2) * (real_of_int d / real_of_int n) / real_of_int d"
    and "(real k + 1 / 2) * (real_of_int d / real_of_int n) / real_of_int d \<le> 1"
proof -
  have d: "real_of_int d \<noteq> 0" and n: "0 < real_of_int n" using assms(1,2) by simp_all
  have eq: "(real k + 1 / 2) * (real_of_int d / real_of_int n) / real_of_int d
              = (real k + 1 / 2) / real_of_int n"
    using d by simp
  from assms(3) have "int k + 1 \<le> n" by linarith
  then have "real_of_int (int k + 1) \<le> real_of_int n" by (simp only: of_int_le_iff)
  then have le: "real k + 1 / 2 \<le> real_of_int n" by simp
  show "0 \<le> (real k + 1 / 2) * (real_of_int d / real_of_int n) / real_of_int d"
    unfolding eq using n by simp
  show "(real k + 1 / 2) * (real_of_int d / real_of_int n) / real_of_int d \<le> 1"
    unfolding eq using n le by (simp add: divide_le_eq)
qed

lemma overCells_in_unit:
  assumes "0 < W" and "0 < H" and "0 < iw" and "0 < ih"
    and f: "\<And>cx cy x. x \<in> set (f cx cy) \<Longrightarrow> x = cx / real_of_int iw \<or> x = cy / real_of_int ih"
    and x: "x \<in> set (overCells W H iw ih f)"
  shows "0 \<le> x \<and> x \<le> 1"
proof -
  from x obtain h w where h: "h < nat H" and w: "w < nat W"
    and m: "x \<in> set (f ((real w + 1 / 2) * (real_of_int iw / real_of_int W))
                        ((real h + 1 / 2) * (real_of_int ih / real_of_int H)))"
    by (auto simp: overCells_def)
  from f [OF m] show ?thesis
    using centre_in_unit [OF assms(1,3) w] centre_in_unit [OF assms(2,4) h] by auto
qed

lemma clip1_id: "0 \<le> v \<Longrightarrow> v \<le> 1 \<Longrightarrow> clip1 v = v"
  by (simp add: clip1_def)

subsection \<open>When the two counts of boxes agree, and when they do not\<close>

lemma forward_when_counts_agree:
  assumes "validConfig pbConf" and "0 \<le> W" and "0 \<le> H"
    and eq: "actualPriorsPerCell (snd (init pbConf)) = nat (numPriors (snd (init pbConf)))"
  shows "\<exists>out. forward (snd (init pbConf)) W H iw ih mem = Inr out
           \<and> length out = 2 * (nat (H * W) * actualPriorsPerCell (snd (init pbConf)) * 4)
           \<and> drop (length out div 2) out
               = concat (replicate (nat (H * W) * actualPriorsPerCell (snd (init pbConf)))
                   (conf_variance pbConf))
           \<and> (\<forall>i < length out div 2. 0 \<le> out ! i \<and> out ! i \<le> 1)"
proof -
  let ?L = "snd (init pbConf)"
  let ?cells = "nat H * nat W"
  let ?a = "actualPriorsPerCell ?L"
  let ?G = "gridVals ?L W H iw ih"
  let ?V = "concat (replicate (?cells * ?a) (variance ?L))"
  define buf0 where "buf0 = resizeOrCreate mem (nat (H * W * numPriors ?L * 4 * 2))"
  have np: "0 \<le> numPriors ?L" using valid_layer(3) [OF assms(1)] by simp
  have v4: "length (variance ?L) = 4" by (rule valid_layer(2) [OF assms(1)])
  have len0: "length buf0 = 2 * (4 * (?cells * ?a))"
    unfolding buf0_def nat_dim(2) [OF assms(2,3) np] eq by (simp add: resizeOrCreate_def)
  have lenG: "length ?G = 4 * (?cells * ?a)" by (simp add: length_gridVals)
  have lenV: "length ?V = 4 * (?cells * ?a)" by (simp add: length_concat_replicate v4)
  have d: "drop (4 * (?cells * ?a) + 4 * (?cells * ?a)) buf0 = []"
    using len0 by simp
  let ?out = "map clip1 ?G @ ?V"
  have f: "forward ?L W H iw ih mem = Inr ?out"
    unfolding forward_valid [OF assms(1,2,3)] eq [symmetric] buf0_def [symmetric] d by simp
  have len: "length ?out = 2 * (4 * (?cells * ?a))"
    by (simp add: lenG lenV)
  have half: "length ?out div 2 = length (map clip1 ?G)"
    unfolding len by (simp add: lenG)
  have dr: "drop (length ?out div 2) ?out = ?V"
    unfolding half by simp
  have rng: "0 \<le> ?out ! i \<and> ?out ! i \<le> 1" if "i < length ?out div 2" for i
  proof -
    from that have i: "i < length ?G" unfolding half by simp
    then have "?out ! i = clip1 (?G ! i)" by (simp add: nth_append)
    then show ?thesis using clip1_range [of "?G ! i"] by simp
  qed
  have "length ?out = 2 * (nat (H * W) * ?a * 4)"
    unfolding len by (simp add: nat_cells [OF assms(2,3)])
  moreover have "drop (length ?out div 2) ?out
                   = concat (replicate (nat (H * W) * ?a) (conf_variance pbConf))"
    unfolding dr by (simp add: nat_cells [OF assms(2,3)] init_fields)
  ultimately show ?thesis
    using f rng by blast
qed

lemma forward_overruns:
  assumes "validConfig pbConf" and "0 < W" and "0 < H"
    and "nat (numPriors (snd (init pbConf))) < actualPriorsPerCell (snd (init pbConf))"
  shows "forward (snd (init pbConf)) W H iw ih mem = Inl OutOfBounds"
proof -
  have W: "0 \<le> W" and H: "0 \<le> H" using assms(2,3) by simp_all
  have "nat H * nat W \<noteq> 0" using assms(2,3) by simp
  then show ?thesis
    unfolding forward_valid [OF assms(1) W H] using assms(4) by simp
qed

subsection \<open>More runs on the configurations\<close>

lemma upt2: "[0..<2] = [0, 1]"
  by code_simp

lemma replicate8: "replicate 8 x = [x, x, x, x, x, x, x, x]"
  by (simp add: eval_nat_numeral)

lemma valid_lastConf: "validConfig lastConf"
  by (simp add: validConfig_def lastConf_def)

lemma valid_twoMinConf: "validConfig twoMinConf"
  by (simp add: validConfig_def twoMinConf_def)

lemma valid_fiveConf: "validConfig fiveConf"
  by (simp add: validConfig_def fiveConf_def)

lemma forward_fiveConf:
  "forward (snd (init fiveConf)) 1 1 100 100 mem =
     Inr ([7 / 20, 7 / 20, 13 / 20, 13 / 20, 5, 5, 5, 5, 5, 5, 5, 5, 5, 5, 5, 5]
          @ map mem [16..<24])"
  by (subst forward_valid [OF valid_fiveConf]) (simp_all add: eval_simps fiveConf_def drop_map)

section \<open>The statements of the specification\<close>

subsection \<open>C1\<close>

text \<open>
  C1. The buffer is to have \<open>2 * height * width * actualPriorsPerCell * 4\<close> entries, its
  second half being copies of the variances. \<^verbatim>\<open>forward\<close> sizes the buffer by
  \<^verbatim>\<open>numPriors_\<close>, which \<^verbatim>\<open>init\<close> counts as the number of derived ratios (plus one
  when there are maximum sizes), and this is the number of boxes written for a cell only
  when there is one minimum size and no raw ratio is 1 (lemma
  \<open>forward_when_counts_agree\<close> has C1 for the configurations where the two numbers
  agree). With one minimum size and the raw ratio 1, on a grid of one cell, the buffer has
  24 entries where C1 has 8, and its second half holds one copy of the variances followed
  by 8 entries that are never written.
\<close>

theorem C1_buffer_sized_by_nominal_count:
  "validConfig unityConf
   \<and> forward (snd (init unityConf)) 1 1 100 100 zeroMem =
       Inr ([7 / 20, 7 / 20, 13 / 20, 13 / 20,
             1 / 10, 1 / 10, 1 / 5, 1 / 5,
             1 / 10, 1 / 10, 1 / 5, 1 / 5,
             1 / 10, 1 / 10, 1 / 5, 1 / 5] @ [0, 0, 0, 0, 0, 0, 0, 0])
   \<and> map_sum id length (forward (snd (init unityConf)) 1 1 100 100 zeroMem) = Inr 24
   \<and> 2 * 1 * 1 * actualPriorsPerCell (snd (init unityConf)) * 4 = 8"
proof -
  have a: "forward (snd (init unityConf)) 1 1 100 100 zeroMem =
       Inr ([7 / 20, 7 / 20, 13 / 20, 13 / 20,
             1 / 10, 1 / 10, 1 / 5, 1 / 5,
             1 / 10, 1 / 10, 1 / 5, 1 / 5,
             1 / 10, 1 / 10, 1 / 5, 1 / 5] @ [0, 0, 0, 0, 0, 0, 0, 0])"
    unfolding forward_unityConf by (simp add: zeroMem_def)
  have b: "map_sum id length (forward (snd (init unityConf)) 1 1 100 100 zeroMem) = Inr 24"
    unfolding a by simp
  have c: "2 * 1 * 1 * actualPriorsPerCell (snd (init unityConf)) * 4 = 8"
    by (simp add: actualPriorsPerCell_def countOfUnityRatios_def nearOne_def init_fields
        unityConf_def)
  from valid_unityConf a b c show ?thesis by blast
qed

subsection \<open>C2\<close>

text \<open>
  C2. The loops over the cells are to write \<open>height * width * actualPriorsPerCell\<close>
  quadruples into the first half of the buffer. With two minimum sizes (and nothing
  else), on a grid of one cell, \<^verbatim>\<open>numPriors_\<close> is 1 and the buffer has 8 entries, of
  which the first 4 are for the coordinates: the two boxes of the cell fill the whole
  buffer, and the stores of the variances that follow fall outside of it. (Lemma
  \<open>forward_overruns\<close>: so it is for every valid configuration that writes more boxes for
  a cell than \<^verbatim>\<open>numPriors_\<close>.)
\<close>

theorem C2_more_boxes_than_room:
  "validConfig twoMinConf
   \<and> actualPriorsPerCell (snd (init twoMinConf)) = 2
   \<and> numPriors (snd (init twoMinConf)) = 1
   \<and> priorLoops (snd (init twoMinConf)) 1 1 100 100
        (0, resizeOrCreate zeroMem (nat (1 * 1 * numPriors (snd (init twoMinConf)) * 4 * 2)))
       = Inr (8, [7 / 20, 7 / 20, 13 / 20, 13 / 20, 1 / 5, 1 / 5, 4 / 5, 4 / 5])
   \<and> forward (snd (init twoMinConf)) 1 1 100 100 zeroMem = Inl OutOfBounds"
proof -
  let ?L = "snd (init twoMinConf)"
  have a: "actualPriorsPerCell ?L = 2" and n: "numPriors ?L = 1"
    by (simp_all add: actualPriorsPerCell_def countOfUnityRatios_def nearOne_def init_fields
        twoMinConf_def)
  have ok: "checkOk ?L \<or> minSize ?L = []"
    using valid_layer(1) [OF valid_twoMinConf] by simp
  have G: "gridVals ?L 1 1 100 100 = [7 / 20, 7 / 20, 13 / 20, 13 / 20, 1 / 5, 1 / 5, 4 / 5, 4 / 5]"
    by (simp add: eval_simps twoMinConf_def)
  have B: "resizeOrCreate zeroMem (nat (1 * 1 * numPriors ?L * 4 * 2)) = [0, 0, 0, 0, 0, 0, 0, 0]"
    unfolding n by (simp add: resizeOrCreate_def map_zeroMem replicate8)
  have p: "priorLoops ?L 1 1 100 100
        (0, resizeOrCreate zeroMem (nat (1 * 1 * numPriors ?L * 4 * 2)))
       = Inr (8, [7 / 20, 7 / 20, 13 / 20, 13 / 20, 1 / 5, 1 / 5, 4 / 5, 4 / 5])"
    unfolding priorLoops_writes [OF ok] G B writes_from_start by simp
  have one: "(0::int) < 1" by simp
  have f: "forward ?L 1 1 100 100 zeroMem = Inl OutOfBounds"
    by (rule forward_overruns [OF valid_twoMinConf one one]) (simp add: a n)
  from valid_twoMinConf a n p f show ?thesis by blast
qed

subsection \<open>C3\<close>

text \<open>
  C3. The second box of a size pair is to have the side \<open>sqrt (minSize * maxSize)\<close>.
  \<^verbatim>\<open>forward\<close> stores the square root in the \<^verbatim>\<open>int\<close> variables \<^verbatim>\<open>boxWidth\<close> and
  \<^verbatim>\<open>boxHeight\<close>, so the side is the root without its fraction. On scenario B (minimum
  size 30, maximum size 60, a grid of one cell, an image of 100 by 100) the second box is
  \<open>(29/100, 29/100, 71/100, 71/100)\<close>, of side 42, and not the box of side
  \<open>sqrt 1800\<close>, whose first coordinate is \<open>(50 - sqrt 1800 / 2) / 100\<close>.
\<close>

theorem C3_truncated_square_root:
  "forward (snd (init scenarioB)) 1 1 100 100 zeroMem =
     Inr [7 / 20, 7 / 20, 13 / 20, 13 / 20,
          29 / 100, 29 / 100, 71 / 100, 71 / 100,
          1 / 10, 1 / 10, 1 / 5, 1 / 5,
          1 / 10, 1 / 10, 1 / 5, 1 / 5]
   \<and> (50 - sqrt (30 * 60) / 2) / 100 \<noteq> (29 / 100 :: real)"
  using sqrt_1800_not_42 by (simp add: forward_scenarioB)

subsection \<open>C4\<close>

text \<open>
  C4. For every valid configuration with a minimum size, every grid and every image with
  positive dimensions: the loops over the cells of \<^verbatim>\<open>forward\<close> store, cell after cell in
  the order of the rows and at the centre
  \<open>((w + 1/2) * imageWidth / layerWidth, (h + 1/2) * imageHeight / layerHeight)\<close> of the
  cell, first the boxes of the minimum and maximum sizes and then, for each derived ratio
  \<open>ar\<close> in order, nothing when \<open>\<bar>ar - 1\<bar> < 1e-6\<close> and otherwise the one box of width
  \<open>m * sqrt ar\<close> and height \<open>m / sqrt ar\<close> around that centre, divided by the dimensions
  of the image, where \<open>m\<close> is the last minimum size. These are all the stores of the
  loops, on whatever buffer they run, and when the configuration writes no more boxes for
  a cell than \<^verbatim>\<open>numPriors_\<close>, \<^verbatim>\<open>forward\<close> returns a buffer that begins with these
  values, clipped.
\<close>

theorem C4_aspect_ratio_priors:
  fixes pbConf :: PriorBoxConfig and W H iw ih :: int and mem :: "nat \<Rightarrow> real"
  defines "L \<equiv> snd (init pbConf)"
  defines "E \<equiv> overCells W H iw ih (\<lambda>centerX centerY.
     concat (map (sizeVals L centerX centerY iw ih) (min_size pbConf))
     @ concat (map (\<lambda>ar.
         if \<bar>ar - 1\<bar> < 1 / 1000000 then []
         else [(centerX - real_of_int (last (min_size pbConf)) * sqrt ar / 2) / real_of_int iw,
               (centerY - real_of_int (last (min_size pbConf)) / sqrt ar / 2) / real_of_int ih,
               (centerX + real_of_int (last (min_size pbConf)) * sqrt ar / 2) / real_of_int iw,
               (centerY + real_of_int (last (min_size pbConf)) / sqrt ar / 2) / real_of_int ih])
         (aspectRatio L)))"
  assumes "validConfig pbConf" and "min_size pbConf \<noteq> []"
    and "0 < W" and "0 < H" and "0 < iw" and "0 < ih"
  shows "(\<forall>buf. priorLoops L W H iw ih (0, buf) =
            (if length E \<le> length buf then Inr (length E, E @ drop (length E) buf)
             else Inl OutOfBounds))
       \<and> (actualPriorsPerCell L \<le> nat (numPriors L) \<longrightarrow>
            (\<exists>out. forward L W H iw ih mem = Inr out \<and> take (length E) out = map clip1 E))"
proof -
  have ok: "checkOk L \<or> minSize L = []"
    using valid_layer(1) [OF assms(3)] by (simp add: L_def)
  have lst: "last (0 # min_size pbConf) = last (min_size pbConf)"
    using assms(4) by simp
  have r: "ratioVals centerX centerY iw ih (last (min_size pbConf)) = (\<lambda>ar.
         if \<bar>ar - 1\<bar> < 1 / 1000000 then []
         else [(centerX - real_of_int (last (min_size pbConf)) * sqrt ar / 2) / real_of_int iw,
               (centerY - real_of_int (last (min_size pbConf)) / sqrt ar / 2) / real_of_int ih,
               (centerX + real_of_int (last (min_size pbConf)) * sqrt ar / 2) / real_of_int iw,
               (centerY + real_of_int (last (min_size pbConf)) / sqrt ar / 2) / real_of_int ih])"
    for centerX centerY
    by (rule ext) (simp add: ratioVals_def box_def nearOne_def)
  have ms: "minSize L = min_size pbConf" by (simp add: L_def init_fields)
  have G: "gridVals L W H iw ih = E"
    unfolding gridVals_overCells ms lst r E_def ..
  have one: "priorLoops L W H iw ih (0, buf) =
            (if length E \<le> length buf then Inr (length E, E @ drop (length E) buf)
             else Inl OutOfBounds)" for buf
    unfolding priorLoops_writes [OF ok] G by (rule writes_from_start)
  have two: "\<exists>out. forward L W H iw ih mem = Inr out \<and> take (length E) out = map clip1 E"
    if "actualPriorsPerCell L \<le> nat (numPriors L)"
  proof -
    have W: "0 \<le> W" and H: "0 \<le> H" using assms(5,6) by simp_all
    from forward_valid_returns [OF assms(3) W H, of iw ih mem] that
    show ?thesis by (simp add: L_def [symmetric] G)
  qed
  from one two show ?thesis by blast
qed

text \<open>
  C4 on the minimum sizes 30 and 60 and the raw ratios 1 and 4, a grid of two cells in a
  row and an image of 400 by 200: in both cells the boxes of the ratios 4 and 1/4 have
  the sides 120 and 30, that is, they are made from 60.
\<close>

theorem C4_aspect_ratio_priors_witness:
  "validConfig lastConf \<and> min_size lastConf = [30, 60]
   \<and> actualPriorsPerCell (snd (init lastConf)) \<le> nat (numPriors (snd (init lastConf)))
   \<and> (\<exists>out. forward (snd (init lastConf)) 2 1 400 200 zeroMem = Inr out
          \<and> take 32 out =
              [17 / 80, 17 / 40, 23 / 80, 23 / 40, 7 / 40, 7 / 20, 13 / 40, 13 / 20,
               1 / 10, 17 / 40, 2 / 5, 23 / 40, 17 / 80, 1 / 5, 23 / 80, 4 / 5,
               57 / 80, 17 / 40, 63 / 80, 23 / 40, 27 / 40, 7 / 20, 33 / 40, 13 / 20,
               3 / 5, 17 / 40, 9 / 10, 23 / 40, 57 / 80, 1 / 5, 63 / 80, 4 / 5])"
proof -
  let ?L = "snd (init lastConf)"
  let ?Ex = "[17 / 80, 17 / 40, 23 / 80, 23 / 40, 7 / 40, 7 / 20, 13 / 40, 13 / 20,
               1 / 10, 17 / 40, 2 / 5, 23 / 40, 17 / 80, 1 / 5, 23 / 80, 4 / 5,
               57 / 80, 17 / 40, 63 / 80, 23 / 40, 27 / 40, 7 / 20, 33 / 40, 13 / 20,
               3 / 5, 17 / 40, 9 / 10, 23 / 40, 57 / 80, 1 / 5, 63 / 80, 4 / 5 :: real]"
  have ms: "min_size lastConf = [30, 60]" and ne: "min_size lastConf \<noteq> []"
    by (simp_all add: lastConf_def)
  have le: "actualPriorsPerCell ?L \<le> nat (numPriors ?L)"
    by (simp add: actualPriorsPerCell_def countOfUnityRatios_def nearOne_def init_fields
        lastConf_def)
  have E: "overCells 2 1 400 200 (\<lambda>centerX centerY.
     concat (map (sizeVals ?L centerX centerY 400 200) (min_size lastConf))
     @ concat (map (\<lambda>ar.
         if \<bar>ar - 1\<bar> < 1 / 1000000 then []
         else [(centerX - real_of_int (last (min_size lastConf)) * sqrt ar / 2) / real_of_int 400,
               (centerY - real_of_int (last (min_size lastConf)) / sqrt ar / 2) / real_of_int 200,
               (centerX + real_of_int (last (min_size lastConf)) * sqrt ar / 2) / real_of_int 400,
               (centerY + real_of_int (last (min_size lastConf)) / sqrt ar / 2) / real_of_int 200])
         (aspectRatio ?L))) = ?Ex"
    by (simp add: overCells_def upt2 sizeVals_def box_def init_fields lastConf_def
        real_sqrt_divide)
  have len: "length ?Ex = 32" by simp
  have cl: "map clip1 ?Ex = ?Ex" by (simp add: clip1_def)
  have p2: "(0::int) < 2" and p1: "(0::int) < 1" and p4: "(0::int) < 400"
    and p200: "(0::int) < 200" by simp_all
  note t = C4_aspect_ratio_priors [OF valid_lastConf ne p2 p1 p4 p200, of zeroMem]
  from t le have "\<exists>out. forward ?L 2 1 400 200 zeroMem = Inr out
          \<and> take (length ?Ex) out = map clip1 ?Ex"
    unfolding E by blast
  then have "\<exists>out. forward ?L 2 1 400 200 zeroMem = Inr out \<and> take 32 out = ?Ex"
    unfolding len cl .
  with valid_lastConf ms le show ?thesis by blast
qed

subsection \<open>C5\<close>

text \<open>
  C5. Every value in the first half of the buffer is to lie between 0 and 1.
  \<^verbatim>\<open>forward\<close> clips the first half before it writes the variances, and it writes the
  variances from where the boxes have ended. With one minimum size, the raw ratio 1 and
  variances of 5, on a grid of one cell, the boxes end after 4 of the 12 entries of the
  first half, and the other 8 hold the variance 5 in the result. (Lemma
  \<open>forward_when_counts_agree\<close> has C5 for the configurations where the number of boxes
  written for a cell is \<^verbatim>\<open>numPriors_\<close>.)
\<close>

theorem C5_unclipped_first_half:
  "validConfig fiveConf
   \<and> forward (snd (init fiveConf)) 1 1 100 100 zeroMem =
       Inr ([7 / 20, 7 / 20, 13 / 20, 13 / 20, 5, 5, 5, 5, 5, 5, 5, 5]
            @ [5, 5, 5, 5, 0, 0, 0, 0, 0, 0, 0, 0])
   \<and> length [7 / 20, 7 / 20, 13 / 20, 13 / 20, 5, 5, 5, 5, 5, 5, 5, 5 :: real]
       = length [5, 5, 5, 5, 0, 0, 0, 0, 0, 0, 0, 0 :: real]"
proof -
  have "forward (snd (init fiveConf)) 1 1 100 100 zeroMem =
       Inr ([7 / 20, 7 / 20, 13 / 20, 13 / 20, 5, 5, 5, 5, 5, 5, 5, 5]
            @ [5, 5, 5, 5, 0, 0, 0, 0, 0, 0, 0, 0])"
    unfolding forward_fiveConf by (simp add: zeroMem_def)
  with valid_fiveConf show ?thesis by simp
qed

subsection \<open>C6\<close>




subsection \<open>C7\<close>

text \<open>
  C7, amended. \<^verbatim>\<open>forward\<close> stops at \<^verbatim>\<open>CHECK_EQ\<close> exactly when the grid has a cell, there
  is a minimum size, there is a maximum size, and the numbers of minimum and of maximum
  sizes differ; \<^verbatim>\<open>init\<close> makes no such check and returns \<^verbatim>\<open>true\<close>.
\<close>

theorem C7_check_eq:
  "(forward (snd (init pbConf)) W H iw ih mem = Inl CheckEqFailed)
     = (0 < W \<and> 0 < H \<and> min_size pbConf \<noteq> [] \<and> max_size pbConf \<noteq> []
        \<and> length (min_size pbConf) \<noteq> length (max_size pbConf))
   \<and> fst (init pbConf)"
proof -
  let ?L = "snd (init pbConf)"
  let ?buf0 = "resizeOrCreate mem (nat (H * W * numPriors ?L * 4 * 2))"
  have A: "forward ?L W H iw ih mem = Inl CheckEqFailed"
    if W: "0 < W" and H: "0 < H" and mn: "min_size pbConf \<noteq> []" and mx: "max_size pbConf \<noteq> []"
      and ne: "length (min_size pbConf) \<noteq> length (max_size pbConf)"
  proof -
    have nok: "\<not> checkOk ?L" and nemp: "minSize ?L \<noteq> []"
      using mn mx ne by (simp_all add: checkOk_def init_fields)
    have np: "2 \<le> numPriors ?L"
      using mx by (simp add: init_fields)
    have "1 * 1 \<le> H * W" using W H by (intro mult_mono) simp_all
    then have "1 * 2 \<le> H * W * numPriors ?L" using np W H by (intro mult_mono) simp_all
    then have "4 \<le> nat (H * W * numPriors ?L * 4 * 2)" by simp
    then have room: "4 \<le> length ?buf0" by (simp add: resizeOrCreate_def)
    have "priorLoops ?L W H iw ih (0, ?buf0) = Inl CheckEqFailed"
      unfolding priorLoops_check_fails [OF nok nemp W H]
      using room by (subst writes_ok) (simp_all add: length_box)
    then show ?thesis
      by (simp add: forward_def Let_def)
  qed
  have B: "0 < W \<and> 0 < H \<and> min_size pbConf \<noteq> [] \<and> max_size pbConf \<noteq> []
        \<and> length (min_size pbConf) \<noteq> length (max_size pbConf)"
    if f: "forward ?L W H iw ih mem = Inl CheckEqFailed"
  proof (rule ccontr)
    assume n: "\<not> ?thesis"
    have p: "priorLoops ?L W H iw ih (0, ?buf0) = Inl CheckEqFailed"
      by (rule forward_CheckEqFailed_prior [OF f])
    show False
    proof (cases "H \<le> 0 \<or> W \<le> 0")
      case True
      then show False using p priorLoops_empty [OF True, of ?L iw ih "(0, ?buf0)"] by simp
    next
      case False
      with n have "checkOk ?L \<or> minSize ?L = []"
        by (auto simp: checkOk_def init_fields)
      then have "writes (gridVals ?L W H iw ih) (0, ?buf0) = Inl CheckEqFailed"
        using p by (simp add: priorLoops_writes)
      then show False using writes_error by blast
    qed
  qed
  have C: "fst (init pbConf)" by (simp add: init_def Let_def)
  from A B C show ?thesis by blast
qed

text \<open>
  C7 without the condition on the minimum sizes fails: with no minimum size and one
  maximum size, \<^verbatim>\<open>forward\<close> returns a buffer.
\<close>

theorem C7_counterexample:
  "max_size noMinConf \<noteq> []
   \<and> length (max_size noMinConf) \<noteq> length (min_size noMinConf)
   \<and> forward (snd (init noMinConf)) 1 1 100 100 zeroMem =
       Inr ([1 / 2, 1 / 2, 1 / 2, 1 / 2, 1 / 2, 1 / 2, 1 / 2, 1 / 2,
           1 / 10, 1 / 10, 1 / 5, 1 / 5, 1 / 10, 1 / 10, 1 / 5, 1 / 5,
           1 / 10, 1 / 10, 1 / 5, 1 / 5, 1 / 10, 1 / 10, 1 / 5, 1 / 5] @ [0, 0, 0, 0, 0, 0, 0, 0])"
proof -
  have "max_size noMinConf \<noteq> []" "length (max_size noMinConf) \<noteq> length (min_size noMinConf)"
    by (simp_all add: noMinConf_def)
  moreover have "map zeroMem [24..<32] = [0, 0, 0, 0, 0, 0, 0, 0]"
    by (simp add: zeroMem_def)
  ultimately show ?thesis
    by (simp only: forward_noMinConf simp_thms)
qed

text \<open>
  C7 on two minimum sizes and one maximum size, a grid of one cell: the run stops at
  \<^verbatim>\<open>CHECK_EQ\<close>.
\<close>

theorem C7_check_eq_witness:
  "forward (snd (init mismatchConf)) 1 1 100 100 zeroMem = Inl CheckEqFailed
   \<and> fst (init mismatchConf)"
  using C7_check_eq [of mismatchConf 1 1 100 100 zeroMem]
  by (simp add: mismatchConf_def)

subsection \<open>C8\<close>

text \<open>
  C8. For every sequence of raw aspect ratios, \<^verbatim>\<open>init\<close> builds the derived ratios as the
  raw ratios, followed by the reciprocal of each of them in the same order, followed by a
  single 1: the length is twice the number of raw ratios plus one, every raw ratio and
  every reciprocal occurs, and what follows the ratios and reciprocals is exactly one 1.
\<close>

theorem C8_derived_aspect_ratios:
  "aspectRatio (snd (init pbConf))
     = aspect_ratio pbConf @ map (\<lambda>r. 1 / r) (aspect_ratio pbConf) @ [1]
   \<and> length (aspectRatio (snd (init pbConf))) = 2 * length (aspect_ratio pbConf) + 1
   \<and> set (aspect_ratio pbConf) \<subseteq> set (aspectRatio (snd (init pbConf)))
   \<and> (\<lambda>r. 1 / r) ` set (aspect_ratio pbConf) \<subseteq> set (aspectRatio (snd (init pbConf)))
   \<and> drop (2 * length (aspect_ratio pbConf)) (aspectRatio (snd (init pbConf))) = [1]"
  by (auto simp: init_fields)

subsection \<open>C9\<close>

text \<open>
  C9. Two runs on the same configuration, grid and image are to give the same buffer.
  With one minimum size and the raw ratio 1, on a grid of one cell, \<^verbatim>\<open>forward\<close> writes 16
  of the 24 entries of its buffer and returns the other 8 as it found them: started on memory
  holding zeros and on memory holding ones, it returns different buffers.
\<close>

theorem C9_unwritten_tail:
  "forward (snd (init unityConf)) 1 1 100 100 zeroMem =
     Inr ([7 / 20, 7 / 20, 13 / 20, 13 / 20,
          1 / 10, 1 / 10, 1 / 5, 1 / 5,
          1 / 10, 1 / 10, 1 / 5, 1 / 5,
          1 / 10, 1 / 10, 1 / 5, 1 / 5] @ [0, 0, 0, 0, 0, 0, 0, 0])
   \<and> forward (snd (init unityConf)) 1 1 100 100 oneMem =
     Inr ([7 / 20, 7 / 20, 13 / 20, 13 / 20,
          1 / 10, 1 / 10, 1 / 5, 1 / 5,
          1 / 10, 1 / 10, 1 / 5, 1 / 5,
          1 / 10, 1 / 10, 1 / 5, 1 / 5] @ [1, 1, 1, 1, 1, 1, 1, 1])
   \<and> forward (snd (init unityConf)) 1 1 100 100 zeroMem
       \<noteq> forward (snd (init unityConf)) 1 1 100 100 oneMem"
  unfolding forward_unityConf by (simp add: zeroMem_def oneMem_def)

subsection \<open>C10\<close>

text \<open>
  C10. For every configuration without minimum sizes, with four variances and positive
  ratios, whatever its maximum sizes, and every grid and image with positive dimensions:
  \<^verbatim>\<open>forward\<close> returns a buffer; the loops over the cells store, cell after cell and for
  each derived ratio that is not skipped, the quadruple
  \<open>(centerX / imageWidth, centerY / imageHeight, centerX / imageWidth, centerY / imageHeight)\<close>
  at the centre of the cell, the box of size 0; and the buffer returned begins with these
  values, which the clipping leaves as they are.
\<close>

theorem C10_empty_min_sizes:
  fixes pbConf :: PriorBoxConfig and W H iw ih :: int and mem :: "nat \<Rightarrow> real"
  defines "L \<equiv> snd (init pbConf)"
  defines "E \<equiv> overCells W H iw ih (\<lambda>centerX centerY.
     concat (map (\<lambda>ar.
         if \<bar>ar - 1\<bar> < 1 / 1000000 then []
         else [centerX / real_of_int iw, centerY / real_of_int ih,
               centerX / real_of_int iw, centerY / real_of_int ih])
         (aspectRatio L)))"
  assumes "min_size pbConf = []" and "length (conf_variance pbConf) = 4"
    and "list_all (\<lambda>r. 0 < r) (aspect_ratio pbConf)"
    and "0 < W" and "0 < H" and "0 < iw" and "0 < ih"
  shows "(\<forall>buf. priorLoops L W H iw ih (0, buf) =
            (if length E \<le> length buf then Inr (length E, E @ drop (length E) buf)
             else Inl OutOfBounds))
       \<and> (\<exists>out. forward L W H iw ih mem = Inr out \<and> take (length E) out = E)"
proof -
  have mn: "minSize L = []" using assms(3) by (simp add: L_def init_fields)
  have ok: "checkOk L \<or> minSize L = []" using mn by simp
  have v: "4 \<le> length (variance L)" using assms(4) by (simp add: L_def init_fields)
  have np: "0 \<le> numPriors L" by (simp add: L_def init_fields)
  have W: "0 \<le> W" and H: "0 \<le> H" using assms(6,7) by simp_all
  have r: "ratioVals centerX centerY iw ih 0 = (\<lambda>ar.
         if \<bar>ar - 1\<bar> < 1 / 1000000 then []
         else [centerX / real_of_int iw, centerY / real_of_int ih,
               centerX / real_of_int iw, centerY / real_of_int ih])"
    for centerX centerY
    by (rule ext) (simp add: ratioVals_def box_def nearOne_def)
  have G: "gridVals L W H iw ih = E"
    unfolding gridVals_overCells mn E_def by (simp add: r)
  have one: "priorLoops L W H iw ih (0, buf) =
            (if length E \<le> length buf then Inr (length E, E @ drop (length E) buf)
             else Inl OutOfBounds)" for buf
    unfolding priorLoops_writes [OF ok] G by (rule writes_from_start)
  have "actualPriorsPerCell L \<le> length (aspectRatio L)"
    using mn by (simp add: actualPriorsPerCell_def)
  also have "\<dots> \<le> nat (numPriors L)"
    by (auto simp: L_def init_fields le_nat_iff)
  finally have le: "actualPriorsPerCell L \<le> nat (numPriors L)" .
  let ?V = "concat (replicate (nat H * nat W * nat (numPriors L)) (take 4 (variance L)))"
  have lenV: "length ?V = 4 * (nat H * nat W * nat (numPriors L))"
    using v by (simp add: length_concat_replicate)
  have fit: "length (gridVals L W H iw ih) \<le> length ?V"
    unfolding lenV length_gridVals using le by simp
  have unit: "0 \<le> x \<and> x \<le> 1" if "x \<in> set E" for x
  proof (rule overCells_in_unit [OF assms(6,7,8,9)])
    show "x \<in> set (overCells W H iw ih (\<lambda>centerX centerY.
     concat (map (\<lambda>ar.
         if \<bar>ar - 1\<bar> < 1 / 1000000 then []
         else [centerX / real_of_int iw, centerY / real_of_int ih,
               centerX / real_of_int iw, centerY / real_of_int ih])
         (aspectRatio L))))"
      using that by (simp only: E_def)
  next
    fix cx cy y
    assume "y \<in> set (concat (map (\<lambda>ar.
         if \<bar>ar - 1\<bar> < 1 / 1000000 then []
         else [cx / real_of_int iw, cy / real_of_int ih,
               cx / real_of_int iw, cy / real_of_int ih])
         (aspectRatio L)))"
    then show "y = cx / real_of_int iw \<or> y = cy / real_of_int ih"
      by (auto split: if_splits)
  qed
  have id: "map clip1 E = E"
    by (rule map_idI) (use unit clip1_id in blast)
  have "forward L W H iw ih mem = Inr (map clip1 (gridVals L W H iw ih) @ ?V
          @ drop (length (gridVals L W H iw ih) + length ?V)
              (resizeOrCreate mem (nat (H * W * numPriors L * 4 * 2))))"
    unfolding forward_ok [OF ok v W H np] using fit by simp
  then have two: "\<exists>out. forward L W H iw ih mem = Inr out \<and> take (length E) out = E"
    unfolding G id by simp
  from one two show ?thesis by blast
qed

text \<open>
  C10 on no minimum size, one maximum size and the raw ratio 4, a grid of two cells in a
  row and an image of 400 by 200: two boxes at (1/4, 1/2), then two at (3/4, 1/2).
\<close>

theorem C10_empty_min_sizes_witness:
  "min_size noMinConf = [] \<and> max_size noMinConf = [60]
   \<and> length (conf_variance noMinConf) = 4
   \<and> list_all (\<lambda>r. 0 < r) (aspect_ratio noMinConf)
   \<and> (\<exists>out. forward (snd (init noMinConf)) 2 1 400 200 zeroMem = Inr out
          \<and> take 16 out =
              [1 / 4, 1 / 2, 1 / 4, 1 / 2, 1 / 4, 1 / 2, 1 / 4, 1 / 2,
               3 / 4, 1 / 2, 3 / 4, 1 / 2, 3 / 4, 1 / 2, 3 / 4, 1 / 2])"
proof -
  let ?L = "snd (init noMinConf)"
  let ?Ex = "[1 / 4, 1 / 2, 1 / 4, 1 / 2, 1 / 4, 1 / 2, 1 / 4, 1 / 2,
               3 / 4, 1 / 2, 3 / 4, 1 / 2, 3 / 4, 1 / 2, 3 / 4, 1 / 2 :: real]"
  have h1: "min_size noMinConf = []" and h2: "length (conf_variance noMinConf) = 4"
    and h3: "list_all (\<lambda>r. 0 < r) (aspect_ratio noMinConf)"
    and mx: "max_size noMinConf = [60]"
    by (simp_all add: noMinConf_def)
  have E: "overCells 2 1 400 200 (\<lambda>centerX centerY.
     concat (map (\<lambda>ar.
         if \<bar>ar - 1\<bar> < 1 / 1000000 then []
         else [centerX / real_of_int 400, centerY / real_of_int 200,
               centerX / real_of_int 400, centerY / real_of_int 200])
         (aspectRatio ?L))) = ?Ex"
    by (simp add: overCells_def upt2 init_fields noMinConf_def)
  have len: "length ?Ex = 16" by simp
  have p2: "(0::int) < 2" and p1: "(0::int) < 1" and p4: "(0::int) < 400"
    and p200: "(0::int) < 200" by simp_all
  note t = C10_empty_min_sizes [OF h1 h2 h3 p2 p1 p4 p200, of zeroMem]
  from t have "\<exists>out. forward ?L 2 1 400 200 zeroMem = Inr out
          \<and> take (length ?Ex) out = ?Ex"
    unfolding E by blast
  then have "\<exists>out. forward ?L 2 1 400 200 zeroMem = Inr out \<and> take 16 out = ?Ex"
    unfolding len .
  with h1 h2 h3 mx show ?thesis by blast
qed

end
